theory Spec2Isabelle
  imports Complex_Main "HOL-Library.Word"
begin

unbundle bit_operations_syntax

section \<open>The audio-to-height sampler of \<open>mtg/terrainWave.py\<close>\<close>

text \<open>
  The module defines \<open>TerrainWaveFile\<close>, a subclass of Python 2's \<open>wave.Wave_read\<close>.
  Python integers are unbounded and are modelled by \<open>int\<close>; the bytes of the data chunk
  are \<open>8 word\<close>. Python floats are modelled by exact real arithmetic: the model says
  nothing about rounding, overflow or NaN.  Exceptions are values of \<open>error\<close>; every
  operation that can raise, or that changes the object, returns the changed object
  together with \<open>error + result\<close>.
\<close>

subsection \<open>Exceptions and progress messages\<close>

text \<open>
  \<open>ZeroDivisionError\<close> carries the kind of division that raised it (Python's messages
  "float division by zero" and "integer division or modulo by zero").  \<open>ValueError\<close> is
  what \<open>max\<close> raises on an empty sequence, \<open>StructError\<close> is \<open>struct.error\<close>, and
  \<open>AttributeError\<close> carries the name of the attribute that was not found.
\<close>

datatype zero_division = FloatDivision | IntegerDivision

datatype error =
    ZeroDivisionError zero_division
  | ValueError
  | StructError
  | AttributeError string

text \<open>
  What the code puts on its queue: a tuple \<open>(label, total)\<close>, a bare integer, or a bare
  string.
\<close>

datatype message = Stage string int | Unit int | Sentinel string

subsection \<open>The object\<close>

text \<open>
  \<open>Wave_read\<close> holds what the standard library's reader keeps after a successful open:
  the header fields, the bytes of the data chunk, the number of bytes already read from
  the chunk (\<open>size_read\<close>) and the frame counter \<open>_soundpos\<close>.
\<close>

type_synonym byte = "8 word"

record Wave_read =
  nchannels :: nat
  sampwidth :: nat
  framerate :: nat
  nframes :: nat
  data_chunk :: "byte list"
  size_read :: nat
  soundpos :: nat

text \<open>
  \<open>TerrainWaveFile\<close> adds the attributes assigned in \<open>__init__\<close>.  The two integer
  attributes that \<open>createheightvals\<close> never touches are kept in \<open>attrs\<close>, the instance
  dictionary under the names the source assigns them, so that reading a name that was
  never assigned is a branch of the model.  \<open>queue\<close> is \<open>None\<close> when no queue was
  given, and otherwise the messages put so far (a \<open>Queue.Queue\<close> object is always
  true in a condition).
\<close>

record TerrainWaveFile = Wave_read +
  attrs :: "string \<rightharpoonup> int"
  songlength :: real
  unpackstructval :: string
  stop :: bool
  queue :: "message list option"
  vtxsample :: int

definition framesize :: "'a Wave_read_scheme \<Rightarrow> nat" where
  "framesize w = nchannels w * sampwidth w"

text \<open>\<open>str * n\<close> for an integer \<open>n\<close>: empty when \<open>n \<le> 0\<close>.\<close>

definition str_mul :: "string \<Rightarrow> int \<Rightarrow> string" where
  "str_mul s n = concat (replicate (nat n) s)"

text \<open>
  \<open>TerrainWaveFile.__init__\<close>, after \<open>wave.Wave_read.__init__\<close> has succeeded and
  left \<open>w\<close>.  \<open>/\<close> on two Python 2 integers is floor division; \<open>2 ** n / 2\<close> parses
  as \<open>(2 ** n) / 2\<close>.
\<close>

definition init :: "Wave_read \<Rightarrow> message list option \<Rightarrow> error + TerrainWaveFile" where
  "init w q =
     (let samplesize = int (sampwidth w) * 8 in
      if framerate w = 0 then Inl (ZeroDivisionError FloatDivision)
      else Inr (Wave_read.extend w
        (TerrainWaveFile.fields
           [''_samplesize'' \<mapsto> samplesize,
            ''_maxamplidtude'' \<mapsto> 2 ^ nat samplesize div 2]
           (real (nframes w) / real (framerate w))
           (str_mul ''h'' ((int (nchannels w) * int (sampwidth w)) div 2))
           False
           q
           0)))"

subsection \<open>The standard library: reading frames, unpacking\<close>

text \<open>
  \<open>Wave_read.rewind\<close> resets the frame counter and makes the next read seek to the
  start of the data chunk.
\<close>

definition rewind :: "TerrainWaveFile \<Rightarrow> TerrainWaveFile" where
  "rewind self = self\<lparr>size_read := 0, soundpos := 0\<rparr>"

text \<open>
  \<open>Wave_read.readframes(n)\<close>: nothing for \<open>n = 0\<close>; otherwise up to
  \<open>n * framesize\<close> bytes from the chunk (all that is left when the size is negative),
  the frame counter advancing by the whole frames read.
\<close>

definition readframes :: "TerrainWaveFile \<Rightarrow> int \<Rightarrow> TerrainWaveFile \<times> byte list" where
  "readframes self n =
     (if n = 0 then (self, [])
      else
        let rest = drop (size_read self) (data_chunk self);
            d = (if n < 0 then rest else take (nat n * framesize self) rest)
        in (self\<lparr>size_read := size_read self + length d,
                 soundpos := soundpos self + length d div framesize self\<rparr>, d))"

text \<open>
  One \<open>h\<close> item: two bytes in the byte order of the machine, taken to be
  little-endian (the order of the data in a WAVE file), two's complement.
\<close>

definition short :: "byte \<Rightarrow> byte \<Rightarrow> int" where
  "short lo hi =
     (let v = int (unat lo) + 256 * int (unat hi)
      in if v \<ge> 32768 then v - 65536 else v)"

text \<open>
  \<open>struct.unpack fmt d\<close> for the formats the class builds (only \<open>h\<close> codes): the
  data must be exactly as long as the format asks.
\<close>

fun struct_unpack :: "string \<Rightarrow> byte list \<Rightarrow> error + int list" where
  "struct_unpack [] [] = Inr []"
| "struct_unpack (c # fmt) (lo # hi # d) =
     (if c = CHR ''h''
      then (case struct_unpack fmt d of Inl e \<Rightarrow> Inl e | Inr vs \<Rightarrow> Inr (short lo hi # vs))
      else Inl StructError)"
| "struct_unpack _ _ = Inl StructError"

subsection \<open>The methods\<close>

definition put :: "message \<Rightarrow> TerrainWaveFile \<Rightarrow> TerrainWaveFile" where
  "put m self = (case queue self of None \<Rightarrow> self | Some q \<Rightarrow> self\<lparr>queue := Some (q @ [m])\<rparr>)"

definition parsedata :: "TerrainWaveFile \<Rightarrow> int \<Rightarrow> TerrainWaveFile \<times> (error + int list)" where
  "parsedata self i =
     (let s1 = put (Unit i) self;
          fmt = str_mul (unpackstructval s1) (vtxsample s1);
          (s2, d) = readframes s1 (vtxsample s1)
      in (s2, struct_unpack fmt d))"

definition convertAbsolute ::
  "TerrainWaveFile \<Rightarrow> int list \<Rightarrow> int \<Rightarrow> TerrainWaveFile \<times> (error + int list)" where
  "convertAbsolute self amps i =
     (put (Unit i) self, Inr (map (\<lambda>x. if x < 0 then NOT x + 1 else x) amps))"

definition averageAmps ::
  "TerrainWaveFile \<Rightarrow> int list \<Rightarrow> int \<Rightarrow> TerrainWaveFile \<times> (error + int)" where
  "averageAmps self amps i =
     (let s1 = put (Unit i) self
      in if length amps = 0 then (s1, Inl (ZeroDivisionError IntegerDivision))
         else (s1, Inr (sum_list amps div int (length amps))))"

definition relativeScale ::
  "TerrainWaveFile \<Rightarrow> int \<Rightarrow> real \<Rightarrow> int \<Rightarrow> TerrainWaveFile \<times> (error + real)" where
  "relativeScale self amps hRatio i = (put (Unit i) self, Inr (real_of_int amps * hRatio))"

text \<open>\<open>xrange(n)\<close>: the integers from 0 up to \<open>n - 1\<close>, none when \<open>n \<le> 0\<close>.\<close>

definition xrange :: "int \<Rightarrow> int list" where
  "xrange n = map int [0..<nat n]"

text \<open>
  A list comprehension \<open>[f(x) for x in xs]\<close> whose body changes the object and may
  raise: the elements are computed in order, and the first exception ends it.
\<close>

fun comprehension ::
  "('s \<Rightarrow> 'a \<Rightarrow> 's \<times> (error + 'b)) \<Rightarrow> 's \<Rightarrow> 'a list \<Rightarrow> 's \<times> (error + 'b list)" where
  "comprehension f s [] = (s, Inr [])"
| "comprehension f s (x # xs) =
     (case f s x of
        (s1, Inl e) \<Rightarrow> (s1, Inl e)
      | (s1, Inr y) \<Rightarrow>
          (case comprehension f s1 xs of
             (s2, Inl e) \<Rightarrow> (s2, Inl e)
           | (s2, Inr ys) \<Rightarrow> (s2, Inr (y # ys))))"

text \<open>\<open>max\<close> of a sequence: \<open>ValueError\<close> when it is empty.\<close>

fun py_max :: "int list \<Rightarrow> error + int" where
  "py_max [] = Inl ValueError"
| "py_max (x # xs) = Inr (fold max xs x)"

text \<open>
  \<open>math.trunc(float(a) / b)\<close> for \<open>b \<noteq> 0\<close>: the quotient rounded towards zero.  (The
  float quotient of two integers below \<open>2 ^ 53\<close> truncates to the same integer.)
\<close>

definition trunc_quotient :: "int \<Rightarrow> int \<Rightarrow> int" where
  "trunc_quotient a b = sgn a * sgn b * (\<bar>a\<bar> div \<bar>b\<bar>)"

text \<open>
  \<open>createheightvals\<close>, lines 115 to 122: rewind, set \<open>vtxsample\<close>, read one tuple of
  amplitudes for each vertex.
\<close>

definition read_amps :: "TerrainWaveFile \<Rightarrow> int \<Rightarrow> TerrainWaveFile \<times> (error + int list list)" where
  "read_amps self nvtx =
     (let s0 = rewind self in
      if nvtx = 0 then (s0, Inl (ZeroDivisionError FloatDivision))
      else
        let s1 = s0\<lparr>vtxsample := trunc_quotient (int (nframes s0)) nvtx\<rparr>;
            s2 = put (Stage ''Reading WAV Data'' nvtx) s1
        in comprehension parsedata s2 (xrange nvtx))"

text \<open>Lines 125 to 128: the amplitudes made positive, unless \<open>negative\<close> is set.\<close>

definition positive_amps ::
  "TerrainWaveFile \<Rightarrow> int list list \<Rightarrow> bool \<Rightarrow> TerrainWaveFile \<times> (error + int list list)" where
  "positive_amps self allAmps negative =
     (if \<not> negative then
        let s1 = put (Stage ''Converting all Values to Positive'' (int (length allAmps))) self
        in comprehension (\<lambda>s i. convertAbsolute s (allAmps ! nat i) i) s1
             (xrange (int (length allAmps)))
      else (self, Inr allAmps))"

text \<open>Lines 130 to 132: the average of each tuple.\<close>

definition average_amps ::
  "TerrainWaveFile \<Rightarrow> int list list \<Rightarrow> TerrainWaveFile \<times> (error + int list)" where
  "average_amps self allAmps =
     (let s1 = put (Stage ''Averaging Amplitude values'' (int (length allAmps))) self
      in comprehension (\<lambda>s i. averageAmps s (allAmps ! nat i) i) s1
           (xrange (int (length allAmps))))"

text \<open>Lines 134 to 139: the ratio to the largest average, and every average scaled by it.\<close>

definition scale_amps ::
  "TerrainWaveFile \<Rightarrow> int list \<Rightarrow> real \<Rightarrow> TerrainWaveFile \<times> (error + real list)" where
  "scale_amps self allAmps vheight =
     (case py_max allAmps of
        Inl e \<Rightarrow> (self, Inl e)
      | Inr m \<Rightarrow>
          if m = 0 then (self, Inl (ZeroDivisionError FloatDivision))
          else
            let hRatio = vheight / real_of_int m;
                s1 = put (Stage ''Scaling to Magnitude Value'' (int (length allAmps))) self
            in comprehension (\<lambda>s i. relativeScale s (allAmps ! nat i) hRatio i) s1
                 (xrange (int (length allAmps))))"

text \<open>The whole method: the four parts in sequence, an exception ending the call.\<close>

definition createheightvals ::
  "TerrainWaveFile \<Rightarrow> int \<Rightarrow> real \<Rightarrow> bool \<Rightarrow> TerrainWaveFile \<times> (error + real list)" where
  "createheightvals self nvtx vheight negative =
     (case read_amps self nvtx of
        (s1, Inl e) \<Rightarrow> (s1, Inl e)
      | (s1, Inr allAmps) \<Rightarrow>
          (case positive_amps s1 allAmps negative of
             (s2, Inl e) \<Rightarrow> (s2, Inl e)
           | (s2, Inr allAmps') \<Rightarrow>
               (case average_amps s2 allAmps' of
                  (s3, Inl e) \<Rightarrow> (s3, Inl e)
                | (s3, Inr allAmps'') \<Rightarrow> scale_amps s3 allAmps'' vheight)))"

text \<open>
  The accessors.  An attribute is looked up by name in the instance dictionary;
  neither class defines a class attribute of these names.
\<close>

definition getattr :: "TerrainWaveFile \<Rightarrow> string \<Rightarrow> error + int" where
  "getattr self name = (case attrs self name of None \<Rightarrow> Inl (AttributeError name) | Some v \<Rightarrow> Inr v)"

definition getsamplesize :: "TerrainWaveFile \<Rightarrow> error + int" where
  "getsamplesize self = getattr self ''_samplesize''"

definition getsonglength :: "TerrainWaveFile \<Rightarrow> real" where
  "getsonglength self = songlength self"

definition getmaxamplitude :: "TerrainWaveFile \<Rightarrow> error + int" where
  "getmaxamplitude self = getattr self ''_maxamplitude''"

text \<open>
  \<open>music_displace\<close> of \<open>scripts/mtg/mtgMain.py\<close>, as far as the queue goes: the heights
  are sampled, \<open>move_vtx_positions\<close> moves the vertices, and the string \<open>Complete\<close>
  is put last.  The host application's part is a parameter: \<open>nVtx\<close> is what
  \<open>cmds.polyEvaluate\<close> returns and \<open>move\<close> gives, for the heights, the messages that
  \<open>move_vtx_positions\<close> puts and whether it raises.  The queue argument is the queue of
  the song object, as in the only caller that passes one (\<open>mtgGUI.py\<close>).
\<close>

definition put_all :: "message list \<Rightarrow> TerrainWaveFile \<Rightarrow> TerrainWaveFile" where
  "put_all ms self = fold put ms self"

definition music_displace ::
  "TerrainWaveFile \<Rightarrow> real \<Rightarrow> int \<Rightarrow> bool \<Rightarrow> (real list \<Rightarrow> message list \<times> (error + unit))
     \<Rightarrow> TerrainWaveFile \<times> (error + unit)" where
  "music_displace songInfo terrainHeight nVtx dips move =
     (case createheightvals songInfo nVtx terrainHeight dips of
        (s1, Inl e) \<Rightarrow> (s1, Inl e)
      | (s1, Inr vals) \<Rightarrow>
          (case move vals of
             (ms, Inl e) \<Rightarrow> (put_all ms s1, Inl e)
           | (ms, Inr u) \<Rightarrow> (put (Sentinel ''Complete'') (put_all ms s1), Inr ())))"

subsection \<open>Notions used in the statements\<close>

text \<open>The object with the messages \<open>ms\<close> appended to its queue, if it has one.\<close>

definition notify :: "message list \<Rightarrow> TerrainWaveFile \<Rightarrow> TerrainWaveFile" where
  "notify ms s = s\<lparr>queue := map_option (\<lambda>q. q @ ms) (queue s)\<rparr>"

text \<open>The bytes of a buffer read two by two as \<open>h\<close> items.\<close>

fun shorts :: "byte list \<Rightarrow> int list" where
  "shorts (lo # hi # d) = short lo hi # shorts d"
| "shorts _ = []"

text \<open>
  An object as \<open>__init__\<close> leaves it, wherever its cursor is: the frame size is positive,
  the data chunk holds the \<open>nframes\<close> frames of the header, and the format has one
  \<open>h\<close> for every two bytes of a frame.
\<close>

definition opened :: "TerrainWaveFile \<Rightarrow> bool" where
  "opened s \<longleftrightarrow>
     0 < framesize s \<and> nframes s * framesize s \<le> length (data_chunk s) \<and>
     unpackstructval s = str_mul ''h'' (int (framesize s div 2))"

text \<open>The \<open>i\<close>-th run of \<open>k\<close> frames of the data chunk, unpacked.\<close>

definition bucket :: "TerrainWaveFile \<Rightarrow> nat \<Rightarrow> nat \<Rightarrow> int list" where
  "bucket s k i =
     shorts (take (k * framesize s) (drop (i * (k * framesize s)) (data_chunk s)))"

text \<open>
  The averages of the tuples, after the sign step, and the averages scaled by the ratio
  of the height to the largest of them.
\<close>

definition averages :: "bool \<Rightarrow> int list list \<Rightarrow> int list" where
  "averages negative allAmps =
     map (\<lambda>b. sum_list b div int (length b))
       (if negative then allAmps else map (map abs) allAmps)"

text \<open>The messages of one successful call of \<open>createheightvals\<close>.\<close>

definition sampler_trace :: "int \<Rightarrow> bool \<Rightarrow> message list" where
  "sampler_trace nvtx negative =
     Stage ''Reading WAV Data'' nvtx # map Unit (xrange nvtx) @
     (if negative then []
      else Stage ''Converting all Values to Positive'' nvtx # map Unit (xrange nvtx)) @
     Stage ''Averaging Amplitude values'' nvtx # map Unit (xrange nvtx) @
     Stage ''Scaling to Magnitude Value'' nvtx # map Unit (xrange nvtx)"

definition scaled :: "real \<Rightarrow> int list \<Rightarrow> real list" where
  "scaled vheight avgs =
     map (\<lambda>a. real_of_int a * (vheight / real_of_int (Max (set avgs)))) avgs"

text \<open>The \<open>j\<close>-th frame of the data chunk.\<close>

definition frame :: "TerrainWaveFile \<Rightarrow> nat \<Rightarrow> byte list" where
  "frame s j = take (framesize s) (drop (j * framesize s) (data_chunk s))"

subsection \<open>Example streams\<close>

text \<open>A mono 16-bit header with two frames, the samples 100 and 50.\<close>

definition wave_two :: Wave_read where
  "wave_two = \<lparr>nchannels = 1, sampwidth = 2, framerate = 44100, nframes = 2,
       data_chunk = [0x64, 0x00, 0x32, 0x00], size_read = 0, soundpos = 0\<rparr>"

definition song_two :: TerrainWaveFile where
  "song_two = \<lparr>nchannels = 1, sampwidth = 2, framerate = 44100, nframes = 2,
       data_chunk = [0x64, 0x00, 0x32, 0x00], size_read = 0, soundpos = 0,
       attrs = [''_samplesize'' \<mapsto> 16, ''_maxamplidtude'' \<mapsto> 32768],
       songlength = 2 / 44100, unpackstructval = ''h'', stop = False,
       queue = Some [], vtxsample = 0\<rparr>"

text \<open>The same with the samples -100 and 50, and no queue.\<close>

definition song_dip :: TerrainWaveFile where
  "song_dip = \<lparr>nchannels = 1, sampwidth = 2, framerate = 44100, nframes = 2,
       data_chunk = [0x9C, 0xFF, 0x32, 0x00], size_read = 0, soundpos = 0,
       attrs = [''_samplesize'' \<mapsto> 16, ''_maxamplidtude'' \<mapsto> 32768],
       songlength = 2 / 44100, unpackstructval = ''h'', stop = False,
       queue = None, vtxsample = 0\<rparr>"

text \<open>A stereo 8-bit header with one frame, the bytes 0 and 1.\<close>

definition wave_eight :: Wave_read where
  "wave_eight = \<lparr>nchannels = 2, sampwidth = 1, framerate = 8000, nframes = 1,
       data_chunk = [0x00, 0x01], size_read = 0, soundpos = 0\<rparr>"

definition song_eight :: TerrainWaveFile where
  "song_eight = \<lparr>nchannels = 2, sampwidth = 1, framerate = 8000, nframes = 1,
       data_chunk = [0x00, 0x01], size_read = 0, soundpos = 0,
       attrs = [''_samplesize'' \<mapsto> 8, ''_maxamplidtude'' \<mapsto> 128],
       songlength = 1 / 8000, unpackstructval = ''h'', stop = False,
       queue = None, vtxsample = 0\<rparr>"



text \<open>A stereo 16-bit stream of two frames, the samples (100, -100) and (50, -50).\<close>

definition song_stereo :: TerrainWaveFile where
  "song_stereo = \<lparr>nchannels = 2, sampwidth = 2, framerate = 44100, nframes = 2,
       data_chunk = [0x64, 0x00, 0x9C, 0xFF, 0x32, 0x00, 0xCE, 0xFF],
       size_read = 0, soundpos = 0,
       attrs = [''_samplesize'' \<mapsto> 16, ''_maxamplidtude'' \<mapsto> 32768],
       songlength = 2 / 44100, unpackstructval = ''hh'', stop = False,
       queue = None, vtxsample = 0\<rparr>"

text \<open>A mono 8-bit stream of two frames; its format string is empty.\<close>

definition song_mono_eight :: TerrainWaveFile where
  "song_mono_eight = \<lparr>nchannels = 1, sampwidth = 1, framerate = 8000, nframes = 2,
       data_chunk = [0x80, 0x80], size_read = 0, soundpos = 0,
       attrs = [''_samplesize'' \<mapsto> 8, ''_maxamplidtude'' \<mapsto> 128],
       songlength = 2 / 8000, unpackstructval = [], stop = False,
       queue = None, vtxsample = 0\<rparr>"

text \<open>A mono 16-bit stream of two frames, the samples 1 and 0.\<close>

definition song_faint :: TerrainWaveFile where
  "song_faint = \<lparr>nchannels = 1, sampwidth = 2, framerate = 44100, nframes = 2,
       data_chunk = [0x01, 0x00, 0x00, 0x00], size_read = 0, soundpos = 0,
       attrs = [''_samplesize'' \<mapsto> 16, ''_maxamplidtude'' \<mapsto> 32768],
       songlength = 2 / 44100, unpackstructval = ''h'', stop = False,
       queue = None, vtxsample = 0\<rparr>"

text \<open>The messages that are \<open>(label, total)\<close> tuples.\<close>

definition is_stage :: "message \<Rightarrow> bool" where
  "is_stage m = (case m of Stage l n \<Rightarrow> True | _ \<Rightarrow> False)"

section \<open>Properties\<close>

subsection \<open>The queue, the reads and the unpacking\<close>

lemma put_notify: "put m s = notify [m] s"
  by (cases "queue s") (simp_all add: put_def notify_def)

lemma notify_notify: "notify ms (notify ms' s) = notify (ms' @ ms) s"
  by (cases "queue s") (simp_all add: notify_def)

lemma notify_Nil: "notify [] s = s"
  by (cases "queue s") (simp_all add: notify_def)

lemma notify_fields [simp]:
  "nchannels (notify ms s) = nchannels s"
  "sampwidth (notify ms s) = sampwidth s"
  "framerate (notify ms s) = framerate s"
  "nframes (notify ms s) = nframes s"
  "data_chunk (notify ms s) = data_chunk s"
  "size_read (notify ms s) = size_read s"
  "soundpos (notify ms s) = soundpos s"
  "attrs (notify ms s) = attrs s"
  "unpackstructval (notify ms s) = unpackstructval s"
  "vtxsample (notify ms s) = vtxsample s"
  "queue (notify ms s) = map_option (\<lambda>q. q @ ms) (queue s)"
  "framesize (notify ms s) = framesize s"
  by (simp_all add: notify_def framesize_def)

lemma struct_unpack_h:
  "struct_unpack (replicate n CHR ''h'') d =
     (if length d = 2 * n then Inr (shorts d) else Inl StructError)"
proof (induction n arbitrary: d)
  case 0
  then show ?case by (cases d) simp_all
next
  case (Suc n)
  show ?case
  proof (cases d)
    case Nil
    then show ?thesis by simp
  next
    case (Cons lo d1)
    show ?thesis
    proof (cases d1)
      case Nil
      with Cons show ?thesis by simp
    next
      case (Cons hi d2)
      with \<open>d = lo # d1\<close> Suc.IH [of d2] show ?thesis by simp
    qed
  qed
qed

lemma str_mul_h: "str_mul (str_mul ''h'' (int u)) (int k) = replicate (k * u) CHR ''h''"
proof -
  have "concat (replicate n ''h'') = replicate n CHR ''h''" for n
    by (induction n) simp_all
  then have a: "str_mul ''h'' (int u) = replicate u CHR ''h''"
    by (simp add: str_mul_def)
  have "concat (replicate k (replicate u CHR ''h'')) = replicate (k * u) CHR ''h''"
    by (induction k) (simp_all add: replicate_add)
  with a show ?thesis by (simp add: str_mul_def)
qed

lemma length_shorts: "length (shorts d) = length d div 2"
  by (induction d rule: shorts.induct) simp_all

lemma short_range: "- 32768 \<le> short lo hi \<and> short lo hi \<le> 32767"
proof -
  define a where "a = uint lo"
  define b where "b = uint hi"
  have bounds: "0 \<le> a" "a < 256" "0 \<le> b" "b < 256"
    using unsigned_less [of lo, where 'a = int] unsigned_less [of hi, where 'a = int]
    by (simp_all add: a_def b_def)
  have "short lo hi = (if a + 256 * b \<ge> 32768 then a + 256 * b - 65536 else a + 256 * b)"
    by (simp add: short_def Let_def a_def b_def)
  with bounds show ?thesis by auto
qed

lemma shorts_range: "v \<in> set (shorts d) \<Longrightarrow> - 32768 \<le> v \<and> v \<le> 32767"
  by (induction d rule: shorts.induct) (auto simp: short_range)

lemma shorts_append:
  "even (length d) \<Longrightarrow> shorts (d @ d') = shorts d @ shorts d'"
  by (induction d rule: shorts.induct) simp_all

lemma readframes_whole:
  assumes "0 \<le> k" "size_read s + nat k * framesize s \<le> length (data_chunk s)" "0 < framesize s"
  shows "readframes s k =
     (s\<lparr>size_read := size_read s + nat k * framesize s, soundpos := soundpos s + nat k\<rparr>,
      take (nat k * framesize s) (drop (size_read s) (data_chunk s)))"
proof (cases "k = 0")
  case True
  then show ?thesis by (simp add: readframes_def)
next
  case False
  have m: "min (length (data_chunk s) - size_read s) (nat k * framesize s) = nat k * framesize s"
    using assms by simp
  show ?thesis using False assms by (simp add: readframes_def Let_def m)
qed

lemma framesize_update [simp]:
  "framesize (s\<lparr>size_read := a\<rparr>) = framesize s"
  "framesize (s\<lparr>soundpos := b\<rparr>) = framesize s"
  "framesize (s\<lparr>vtxsample := c\<rparr>) = framesize s"
  "framesize (s\<lparr>queue := q\<rparr>) = framesize s"
  by (simp_all add: framesize_def)

lemma notify_update:
  "notify ms (s\<lparr>size_read := a\<rparr>) = (notify ms s)\<lparr>size_read := a\<rparr>"
  "notify ms (s\<lparr>soundpos := b\<rparr>) = (notify ms s)\<lparr>soundpos := b\<rparr>"
  "notify ms (s\<lparr>vtxsample := c\<rparr>) = (notify ms s)\<lparr>vtxsample := c\<rparr>"
  by (simp_all add: notify_def)

lemma parsedata_whole:
  assumes "vtxsample s = int k" "unpackstructval s = str_mul ''h'' (int u)"
    and "size_read s + k * framesize s \<le> length (data_chunk s)" "0 < framesize s"
    and "k * framesize s = 2 * (k * u)"
  shows "parsedata s i =
     (notify [Unit i] (s\<lparr>size_read := size_read s + k * framesize s, soundpos := soundpos s + k\<rparr>),
      Inr (shorts (take (k * framesize s) (drop (size_read s) (data_chunk s)))))"
proof -
  let ?s1 = "notify [Unit i] s"
  have "readframes ?s1 (int k) =
     (?s1\<lparr>size_read := size_read s + k * framesize s, soundpos := soundpos s + k\<rparr>,
      take (k * framesize s) (drop (size_read s) (data_chunk s)))"
    using readframes_whole [of "int k" ?s1] assms(3,4) by simp
  moreover have "length (take (k * framesize s) (drop (size_read s) (data_chunk s))) = 2 * (k * u)"
  proof -
    have "length (take (k * framesize s) (drop (size_read s) (data_chunk s))) = k * framesize s"
      using assms(3) by simp
    then show ?thesis by (simp only: assms(5))
  qed
  ultimately show ?thesis
    using assms(1,2)
    by (simp add: parsedata_def put_notify Let_def str_mul_h struct_unpack_h notify_update
          del: length_take)
qed

lemma comprehension_parsedata:
  assumes "vtxsample s = int k" "unpackstructval s = str_mul ''h'' (int u)"
    and "0 < framesize s" "k * framesize s = 2 * (k * u)"
    and "size_read s = j * (k * framesize s)"
    and "(j + n) * (k * framesize s) \<le> length (data_chunk s)"
  shows "comprehension parsedata s (map int [j..<j + n]) =
     (notify (map Unit (map int [j..<j + n]))
        (s\<lparr>size_read := (j + n) * (k * framesize s), soundpos := soundpos s + n * k\<rparr>),
      Inr (map (\<lambda>i. shorts (take (k * framesize s) (drop (i * (k * framesize s)) (data_chunk s))))
             [j..<j + n]))"
  using assms
proof (induction n arbitrary: s j)
  case 0
  then show ?case by (simp add: notify_Nil)
next
  case (Suc n)
  let ?fs = "framesize s"
  let ?s1 = "notify [Unit (int j)] (s\<lparr>size_read := size_read s + k * ?fs, soundpos := soundpos s + k\<rparr>)"
  have le: "size_read s + k * ?fs \<le> length (data_chunk s)"
  proof -
    have "size_read s + k * ?fs = (j + 1) * (k * ?fs)" using Suc.prems(5) by (simp add: algebra_simps)
    also have "\<dots> \<le> (j + Suc n) * (k * ?fs)" by (rule mult_le_mono1) simp
    finally show ?thesis using Suc.prems(6) by simp
  qed
  have p: "parsedata s (int j) =
     (?s1, Inr (shorts (take (k * ?fs) (drop (j * (k * ?fs)) (data_chunk s)))))"
    using parsedata_whole [OF Suc.prems(1,2) le Suc.prems(3,4), of "int j"] Suc.prems(5) by simp
  have fs1: "framesize ?s1 = ?fs" by (simp add: framesize_def notify_def)
  have ih: "comprehension parsedata ?s1 (map int [Suc j..<Suc j + n]) =
     (notify (map Unit (map int [Suc j..<Suc j + n]))
        (?s1\<lparr>size_read := (Suc j + n) * (k * framesize ?s1), soundpos := soundpos ?s1 + n * k\<rparr>),
      Inr (map (\<lambda>i. shorts (take (k * framesize ?s1) (drop (i * (k * framesize ?s1)) (data_chunk ?s1))))
             [Suc j..<Suc j + n]))"
    using Suc.prems by (intro Suc.IH) (simp_all add: fs1 algebra_simps)
  have upt: "[j..<j + Suc n] = j # [Suc j..<Suc j + n]"
    by (simp add: upt_conv_Cons)
  have "comprehension parsedata s (map int [j..<j + Suc n]) =
      (notify (map Unit (map int [Suc j..<Suc j + n]))
        (?s1\<lparr>size_read := (Suc j + n) * (k * framesize ?s1), soundpos := soundpos ?s1 + n * k\<rparr>),
       Inr (shorts (take (k * ?fs) (drop (j * (k * ?fs)) (data_chunk s))) #
            map (\<lambda>i. shorts (take (k * framesize ?s1) (drop (i * (k * framesize ?s1)) (data_chunk ?s1))))
             [Suc j..<Suc j + n]))"
    by (simp only: upt list.map comprehension.simps p ih prod.case sum.case)
  also have "\<dots> = (notify (map Unit (map int [j..<j + Suc n]))
        (s\<lparr>size_read := (j + Suc n) * (k * ?fs), soundpos := soundpos s + Suc n * k\<rparr>),
      Inr (map (\<lambda>i. shorts (take (k * ?fs) (drop (i * (k * ?fs)) (data_chunk s))))
             [j..<j + Suc n]))"
    unfolding upt
    by (simp add: fs1 notify_update [symmetric] notify_notify algebra_simps del: upt_Suc)
  finally show ?case .
qed


subsection \<open>List comprehensions\<close>

lemma comprehension_length:
  "comprehension f s xs = (s', Inr ys) \<Longrightarrow> length ys = length xs"
  by (induction xs arbitrary: s s' ys) (auto split: prod.splits sum.splits)

lemma comprehension_Inr_iff:
  assumes "\<And>s x. snd (f s x) = (if ok x then Inr (v x) else Inl (e x))"
  shows "snd (comprehension f s xs) = Inr ys \<longleftrightarrow> (\<forall>x\<in>set xs. ok x) \<and> ys = map v xs"
proof (induction xs arbitrary: s ys)
  case Nil
  show ?case by auto
next
  case (Cons x xs)
  obtain s1 r where f: "f s x = (s1, r)" by (cases "f s x")
  have r: "r = (if ok x then Inr (v x) else Inl (e x))"
    using assms [of s x] f by simp
  show ?case
  proof (cases "ok x")
    case False
    with f r show ?thesis by simp
  next
    case True
    obtain s2 r2 where c: "comprehension f s1 xs = (s2, r2)"
      by (cases "comprehension f s1 xs")
    have ih: "r2 = Inr zs \<longleftrightarrow> (\<forall>x\<in>set xs. ok x) \<and> zs = map v xs" for zs
      using Cons.IH [of s1 zs] c by simp
    show ?thesis
    proof (cases r2)
      case (Inl err)
      with ih have "\<not> (\<forall>x\<in>set xs. ok x)" by (metis sum.distinct(1))
      with f r True c Inl show ?thesis by simp
    next
      case (Inr zs)
      with ih [of zs] have "(\<forall>x\<in>set xs. ok x) \<and> zs = map v xs" by simp
      with f r True c Inr show ?thesis by auto
    qed
  qed
qed

lemma comprehension_queue:
  assumes "\<And>s x. queue (fst (f s x)) = map_option (\<lambda>q. q @ [Unit x]) (queue s)"
    and "snd (comprehension f s xs) = Inr ys"
  shows "queue (fst (comprehension f s xs)) = map_option (\<lambda>q. q @ map Unit xs) (queue s)"
  using assms(2)
proof (induction xs arbitrary: s ys)
  case Nil
  show ?case by (simp add: option.map_ident)
next
  case (Cons x xs)
  obtain s1 r where f: "f s x = (s1, r)" by (cases "f s x")
  obtain s2 r2 where c: "comprehension f s1 xs = (s2, r2)"
    by (cases "comprehension f s1 xs")
  from Cons.prems f c obtain y zs where r: "r = Inr y" and r2: "r2 = Inr zs"
    by (auto split: sum.splits)
  have q1: "queue s1 = map_option (\<lambda>q. q @ [Unit x]) (queue s)"
    using assms(1) [of s x] f by simp
  have "queue s2 = map_option (\<lambda>q. q @ map Unit xs) (queue s1)"
    using Cons.IH [of s1 zs] c r2 by simp
  with q1 have "queue s2 = map_option (\<lambda>q. q @ map Unit (x # xs)) (queue s)"
    by (cases "queue s") simp_all
  with f c r r2 show ?case by simp
qed


subsection \<open>The four parts of \<open>createheightvals\<close>\<close>

lemma length_xrange [simp]: "length (xrange n) = nat n"
  by (simp add: xrange_def)

lemma map_xrange_nth: "map (\<lambda>i. g (xs ! nat i)) (xrange (int (length xs))) = map g xs"
proof -
  have "map (\<lambda>i. g (xs ! nat i)) (xrange (int (length xs))) = map g (map ((!) xs) [0..<length xs])"
    by (simp add: xrange_def comp_def)
  then show ?thesis by (simp only: map_nth)
qed

lemma ball_xrange_nth:
  "(\<forall>i\<in>set (xrange (int (length xs))). P (xs ! nat i)) \<longleftrightarrow> (\<forall>b\<in>set xs. P b)"
  by (auto simp: xrange_def all_set_conv_all_nth)

lemma put_queue: "queue (put m s) = map_option (\<lambda>q. q @ [m]) (queue s)"
  by (simp add: put_notify)

lemma parsedata_queue:
  "queue (fst (parsedata s i)) = map_option (\<lambda>q. q @ [Unit i]) (queue s)"
proof -
  have "queue (fst (readframes t n)) = queue t" for t n
    by (simp add: readframes_def Let_def)
  then show ?thesis
    by (simp add: parsedata_def Let_def split_beta put_queue)
qed

lemma abs_conv: "(if x < 0 then NOT x + 1 else x) = \<bar>x\<bar>" for x :: int
  by (simp add: not_int_def)

lemma positive_amps_snd:
  "snd (positive_amps s xs negative) = Inr (if negative then xs else map (map abs) xs)"
proof (cases negative)
  case True
  then show ?thesis by (simp add: positive_amps_def)
next
  case False
  let ?f = "\<lambda>s i. convertAbsolute s (xs ! nat i) i"
  have "snd (?f s i) = (if True then Inr (map abs (xs ! nat i)) else Inl ValueError)" for s i
    by (simp add: convertAbsolute_def abs_conv abs_if [abs_def])
  from comprehension_Inr_iff [of ?f "\<lambda>_. True" "\<lambda>i. map abs (xs ! nat i)" "\<lambda>_. ValueError", OF this]
  have "snd (comprehension ?f t (xrange (int (length xs)))) = Inr (map (map abs) xs)" for t
    by (simp add: map_xrange_nth [of "map abs" xs])
  with False show ?thesis by (simp add: positive_amps_def Let_def)
qed

lemma positive_amps_queue:
  "queue (fst (positive_amps s xs negative)) =
     map_option (\<lambda>q. q @ (if negative then []
        else Stage ''Converting all Values to Positive'' (int (length xs)) #
             map Unit (xrange (int (length xs))))) (queue s)"
proof (cases negative)
  case True
  then show ?thesis by (simp add: positive_amps_def option.map_ident)
next
  case False
  let ?f = "\<lambda>s i. convertAbsolute s (xs ! nat i) i"
  let ?s1 = "put (Stage ''Converting all Values to Positive'' (int (length xs))) s"
  have q: "queue (fst (?f s i)) = map_option (\<lambda>q. q @ [Unit i]) (queue s)" for s i
    by (simp add: convertAbsolute_def put_queue)
  have "snd (comprehension ?f ?s1 (xrange (int (length xs)))) = Inr (map (map abs) xs)"
    using positive_amps_snd [of s xs False] by (simp add: positive_amps_def Let_def)
  from comprehension_queue [of ?f, OF q this]
  show ?thesis using False
    by (cases "queue s") (simp_all add: positive_amps_def Let_def put_queue)
qed

lemma average_amps_Inr_iff:
  "snd (average_amps s xs) = Inr ys \<longleftrightarrow>
     (\<forall>b\<in>set xs. b \<noteq> []) \<and> ys = map (\<lambda>b. sum_list b div int (length b)) xs"
proof -
  let ?f = "\<lambda>s i. averageAmps s (xs ! nat i) i"
  have "snd (?f s i) = (if xs ! nat i \<noteq> [] then Inr (sum_list (xs ! nat i) div int (length (xs ! nat i)))
          else Inl (ZeroDivisionError IntegerDivision))" for s i
    by (simp add: averageAmps_def Let_def)
  from comprehension_Inr_iff [of ?f "\<lambda>i. xs ! nat i \<noteq> []"
      "\<lambda>i. sum_list (xs ! nat i) div int (length (xs ! nat i))" "\<lambda>_. ZeroDivisionError IntegerDivision", OF this]
  show ?thesis
    by (simp add: average_amps_def Let_def
          map_xrange_nth [of "\<lambda>b. sum_list b div int (length b)" xs]
          ball_xrange_nth [where P = "\<lambda>b. b \<noteq> []" and xs = xs])
qed

lemma average_amps_queue:
  assumes "snd (average_amps s xs) = Inr ys"
  shows "queue (fst (average_amps s xs)) =
     map_option (\<lambda>q. q @ Stage ''Averaging Amplitude values'' (int (length xs)) #
             map Unit (xrange (int (length xs)))) (queue s)"
proof -
  let ?f = "\<lambda>s i. averageAmps s (xs ! nat i) i"
  let ?s1 = "put (Stage ''Averaging Amplitude values'' (int (length xs))) s"
  have q: "queue (fst (?f s i)) = map_option (\<lambda>q. q @ [Unit i]) (queue s)" for s i
    by (simp add: averageAmps_def Let_def put_queue)
  have "snd (comprehension ?f ?s1 (xrange (int (length xs)))) = Inr ys"
    using assms by (simp add: average_amps_def Let_def)
  from comprehension_queue [of ?f, OF q this]
  show ?thesis
    by (cases "queue s") (simp_all add: average_amps_def Let_def put_queue)
qed

lemma py_max_eq: "py_max xs = (if xs = [] then Inl ValueError else Inr (Max (set xs)))"
proof (cases xs)
  case Nil
  then show ?thesis by simp
next
  case (Cons x ys)
  then show ?thesis using Max.set_eq_fold [of x ys] by simp
qed

lemma scale_amps_Inr_iff:
  "snd (scale_amps s avgs vheight) = Inr out \<longleftrightarrow>
     avgs \<noteq> [] \<and> Max (set avgs) \<noteq> 0 \<and> out = scaled vheight avgs"
proof -
  let ?h = "vheight / real_of_int (Max (set avgs))"
  let ?f = "\<lambda>s i. relativeScale s (avgs ! nat i) ?h i"
  have a: "snd (comprehension ?f t js) = Inr out \<longleftrightarrow>
      (\<forall>x\<in>set js. True) \<and> out = map (\<lambda>i. real_of_int (avgs ! nat i) * ?h) js" for t js
    by (rule comprehension_Inr_iff [where e = "\<lambda>_. ValueError"]) (simp add: relativeScale_def)
  have b: "map (\<lambda>i. real_of_int (avgs ! nat i) * ?h) (xrange (int (length avgs))) = scaled vheight avgs"
    unfolding scaled_def
    by (rule map_xrange_nth [where g = "\<lambda>a. real_of_int a * ?h" and xs = avgs])
  have "snd (comprehension ?f t (xrange (int (length avgs)))) = Inr out \<longleftrightarrow> out = scaled vheight avgs" for t
    unfolding a b by simp
  then show ?thesis
    by (auto simp: scale_amps_def py_max_eq Let_def)
qed

lemma scale_amps_queue:
  assumes "snd (scale_amps s avgs vheight) = Inr out"
  shows "queue (fst (scale_amps s avgs vheight)) =
     map_option (\<lambda>q. q @ Stage ''Scaling to Magnitude Value'' (int (length avgs)) #
             map Unit (xrange (int (length avgs)))) (queue s)"
proof -
  let ?h = "vheight / real_of_int (Max (set avgs))"
  let ?f = "\<lambda>s i. relativeScale s (avgs ! nat i) ?h i"
  let ?s1 = "put (Stage ''Scaling to Magnitude Value'' (int (length avgs))) s"
  have ne: "avgs \<noteq> []" "Max (set avgs) \<noteq> 0"
    using assms by (simp_all add: scale_amps_Inr_iff)
  have q: "queue (fst (?f s i)) = map_option (\<lambda>q. q @ [Unit i]) (queue s)" for s i
    by (simp add: relativeScale_def put_queue)
  have "snd (comprehension ?f ?s1 (xrange (int (length avgs)))) = Inr out"
    using assms ne by (simp add: scale_amps_def py_max_eq Let_def)
  from comprehension_queue [of ?f, OF q this]
  show ?thesis using ne
    by (cases "queue s") (simp_all add: scale_amps_def py_max_eq Let_def put_queue)
qed


lemma read_amps_zero: "snd (read_amps s 0) = Inl (ZeroDivisionError FloatDivision)"
  by (simp add: read_amps_def Let_def)

lemma read_amps_negative: "nvtx < 0 \<Longrightarrow> snd (read_amps s nvtx) = Inr []"
  by (simp add: read_amps_def Let_def xrange_def)

lemma read_amps_length:
  assumes "snd (read_amps s nvtx) = Inr xs"
  shows "nvtx \<noteq> 0 \<and> length xs = nat nvtx"
proof -
  have nz: "nvtx \<noteq> 0" using assms by (auto simp: read_amps_def Let_def)
  obtain s' where "read_amps s nvtx = (s', Inr xs)"
    using assms by (cases "read_amps s nvtx") simp
  with nz have "length xs = length (xrange nvtx)"
    by (auto simp: read_amps_def Let_def dest: comprehension_length)
  with nz show ?thesis by simp
qed

lemma read_amps_queue:
  assumes "snd (read_amps s nvtx) = Inr xs"
  shows "queue (fst (read_amps s nvtx)) =
     map_option (\<lambda>q. q @ Stage ''Reading WAV Data'' nvtx # map Unit (xrange nvtx)) (queue s)"
proof -
  have nz: "nvtx \<noteq> 0" using assms by (auto simp: read_amps_def Let_def)
  let ?s2 = "put (Stage ''Reading WAV Data'' nvtx)
      ((rewind s)\<lparr>vtxsample := trunc_quotient (int (nframes (rewind s))) nvtx\<rparr>)"
  have "snd (comprehension parsedata ?s2 (xrange nvtx)) = Inr xs"
    using assms nz by (simp add: read_amps_def Let_def)
  from comprehension_queue [of parsedata, OF parsedata_queue this]
  show ?thesis using nz
    by (cases "queue s") (simp_all add: read_amps_def Let_def put_queue rewind_def)
qed

lemma createheightvals_Inr_iff:
  "snd (createheightvals s nvtx vheight negative) = Inr out \<longleftrightarrow>
     (\<exists>xs. snd (read_amps s nvtx) = Inr xs \<and> (\<forall>b\<in>set xs. b \<noteq> []) \<and>
        averages negative xs \<noteq> [] \<and> Max (set (averages negative xs)) \<noteq> 0 \<and>
        out = scaled vheight (averages negative xs))"
proof -
  obtain s1 r1 where r: "read_amps s nvtx = (s1, r1)" by (cases "read_amps s nvtx")
  show ?thesis
  proof (cases r1)
    case (Inl e)
    with r show ?thesis by (simp add: createheightvals_def)
  next
    case (Inr xs)
    let ?xs' = "if negative then xs else map (map abs) xs"
    obtain s2 where p: "positive_amps s1 xs negative = (s2, Inr ?xs')"
      using positive_amps_snd [of s1 xs negative] by (cases "positive_amps s1 xs negative") simp
    obtain s3 r3 where a: "average_amps s2 ?xs' = (s3, r3)" by (cases "average_amps s2 ?xs'")
    have ne: "(\<forall>b\<in>set ?xs'. b \<noteq> []) \<longleftrightarrow> (\<forall>b\<in>set xs. b \<noteq> [])" by auto
    have a_iff: "r3 = Inr ys \<longleftrightarrow> (\<forall>b\<in>set xs. b \<noteq> []) \<and> ys = averages negative xs" for ys
      using average_amps_Inr_iff [of s2 ?xs' ys] a unfolding ne by (simp add: averages_def)
    show ?thesis
    proof (cases r3)
      case (Inl e)
      with a_iff have "\<not> (\<forall>b\<in>set xs. b \<noteq> [])" by (metis sum.distinct(1))
      with r Inr p a Inl show ?thesis by (simp add: createheightvals_def)
    next
      case r3: (Inr ys)
      with a_iff [of ys] have ys: "(\<forall>b\<in>set xs. b \<noteq> [])" "ys = averages negative xs" by simp_all
      have "snd (createheightvals s nvtx vheight negative) = snd (scale_amps s3 ys vheight)"
        using r Inr p a r3 by (simp add: createheightvals_def)
      with ys r Inr show ?thesis by (simp add: scale_amps_Inr_iff)
    qed
  qed
qed

lemma createheightvals_queue:
  assumes "snd (createheightvals s nvtx vheight negative) = Inr out"
  shows "queue (fst (createheightvals s nvtx vheight negative)) =
     map_option (\<lambda>q. q @ sampler_trace nvtx negative) (queue s)"
proof -
  obtain s1 r1 where r: "read_amps s nvtx = (s1, r1)" by (cases "read_amps s nvtx")
  from assms obtain xs where xs: "r1 = Inr xs" and ne: "\<forall>b\<in>set xs. b \<noteq> []"
    and av_ne: "averages negative xs \<noteq> []"
    and out: "snd (scale_amps s3 (averages negative xs) vheight) = Inr out" for s3
    using r unfolding createheightvals_Inr_iff scale_amps_Inr_iff by auto
  from av_ne have "xs \<noteq> []" by (auto simp: averages_def split: if_splits)
  then have "0 < length xs" by simp
  moreover have "length xs = nat nvtx"
    using read_amps_length [of s nvtx xs] r xs by simp
  ultimately have len: "int (length xs) = nvtx" "nvtx \<noteq> 0"
    by simp_all
  let ?xs' = "if negative then xs else map (map abs) xs"
  obtain s2 where p: "positive_amps s1 xs negative = (s2, Inr ?xs')"
    using positive_amps_snd [of s1 xs negative] by (cases "positive_amps s1 xs negative") simp
  have av: "snd (average_amps s2 ?xs') = Inr (averages negative xs)"
    using ne by (auto simp: average_amps_Inr_iff averages_def)
  then obtain s3 where a: "average_amps s2 ?xs' = (s3, Inr (averages negative xs))"
    by (cases "average_amps s2 ?xs'") simp
  have len': "int (length ?xs') = nvtx" "int (length (averages negative xs)) = nvtx"
    using len by (simp_all add: averages_def)
  have q1: "queue s1 = map_option (\<lambda>q. q @ Stage ''Reading WAV Data'' nvtx # map Unit (xrange nvtx)) (queue s)"
    using read_amps_queue [of s nvtx xs] r xs by simp
  have q2: "queue s2 = map_option (\<lambda>q. q @ (if negative then []
        else Stage ''Converting all Values to Positive'' nvtx # map Unit (xrange nvtx))) (queue s1)"
    using positive_amps_queue [of s1 xs negative] p len by simp
  have q3: "queue s3 = map_option (\<lambda>q. q @ Stage ''Averaging Amplitude values'' nvtx #
             map Unit (xrange nvtx)) (queue s2)"
    using average_amps_queue [OF av] a len' by simp
  have q4: "queue (fst (scale_amps s3 (averages negative xs) vheight)) =
      map_option (\<lambda>q. q @ Stage ''Scaling to Magnitude Value'' nvtx # map Unit (xrange nvtx)) (queue s3)"
    using scale_amps_queue [OF out [of s3]] len' by simp
  have "fst (createheightvals s nvtx vheight negative) = fst (scale_amps s3 (averages negative xs) vheight)"
    using r xs p a by (simp add: createheightvals_def)
  then have "queue (fst (createheightvals s nvtx vheight negative)) =
      queue (fst (scale_amps s3 (averages negative xs) vheight))"
    by simp
  then show ?thesis
    unfolding q4 q3 q2 q1 by (cases "queue s") (simp_all add: sampler_trace_def)
qed

subsection \<open>The accessor for the maximum amplitude\<close>

lemma init_two: "init wave_two (Some []) = Inr song_two"
  by (simp add: init_def wave_two_def song_two_def str_mul_def Wave_read.defs TerrainWaveFile.defs)

text \<open>
  C10.  \<open>__init__\<close> stores \<open>2 ^ (sampleSizeBits - 1)\<close> under the name
  \<open>_maxamplidtude\<close>, and \<open>getmaxamplitude\<close> reads \<open>_maxamplitude\<close>: on every object that
  \<open>__init__\<close> returns the accessor raises \<open>AttributeError\<close> instead of returning the
  value.
\<close>

theorem getmaxamplitude_raises:
  assumes "init w q = Inr self" and "0 < sampwidth w"
  shows "getmaxamplitude self = Inl (AttributeError ''_maxamplitude'') \<and>
         attrs self ''_maxamplidtude'' = Some (2 ^ (sampwidth w * 8 - 1))"
proof -
  obtain n where n: "sampwidth w * 8 = Suc n"
    using assms(2) by (cases "sampwidth w * 8") simp_all
  have "(2::int) ^ (sampwidth w * 8) div 2 = 2 ^ (sampwidth w * 8 - 1)"
    by (simp add: n)
  with assms(1) show ?thesis
    by (auto simp: init_def getmaxamplitude_def getattr_def Let_def nat_mult_distrib
          Wave_read.defs TerrainWaveFile.defs split: if_splits)
qed

theorem getmaxamplitude_raises_witness:
  "init wave_two (Some []) = Inr song_two \<and> 0 < sampwidth wave_two \<and>
   getmaxamplitude song_two = Inl (AttributeError ''_maxamplitude'') \<and>
   attrs song_two ''_maxamplidtude'' = Some 32768"
proof -
  have s: "0 < sampwidth wave_two" by (simp add: wave_two_def)
  show ?thesis
    using getmaxamplitude_raises [OF init_two s] init_two s by (simp add: wave_two_def)
qed

subsection \<open>Runs of the example streams\<close>

lemmas run_defs =
  createheightvals_def read_amps_def positive_amps_def average_amps_def scale_amps_def
  rewind_def trunc_quotient_def put_def xrange_def parsedata_def str_mul_def readframes_def
  framesize_def short_def convertAbsolute_def averageAmps_def relativeScale_def upt_rec Let_def

lemma run_two: "createheightvals song_two 2 10 False =
  (song_two\<lparr>size_read := 4, soundpos := 2, vtxsample := 1,
     queue := Some [Stage ''Reading WAV Data'' 2, Unit 0, Unit 1,
       Stage ''Converting all Values to Positive'' 2, Unit 0, Unit 1,
       Stage ''Averaging Amplitude values'' 2, Unit 0, Unit 1,
       Stage ''Scaling to Magnitude Value'' 2, Unit 0, Unit 1]\<rparr>, Inr [10, 5])"
  by (simp add: run_defs song_two_def)

lemma run_two_negative_height: "snd (createheightvals song_two 2 (- 10) False) = Inr [- 10, - 5]"
  by (simp add: run_defs song_two_def)

lemma run_dip: "snd (createheightvals song_dip 2 1 True) = Inr [- 2, 1]"
  by (simp add: run_defs song_dip_def)

lemma read_dip: "snd (read_amps song_dip 2) = Inr [[- 100], [50]]"
  by (simp add: run_defs song_dip_def)

lemma read_two: "snd (read_amps song_two 2) = Inr [[100], [50]]"
  by (simp add: run_defs song_two_def)


subsection \<open>The scaling step\<close>

lemma put_all_notify: "put_all ms s = notify ms s"
  unfolding put_all_def
  by (induction ms arbitrary: s) (simp_all add: notify_Nil put_notify notify_notify)

lemma comprehension_total:
  assumes "\<And>s x. f s x = (put (Unit x) s, Inr (v x))"
  shows "comprehension f s xs = (notify (map Unit xs) s, Inr (map v xs))"
proof (induction xs arbitrary: s)
  case Nil
  show ?case by (simp add: notify_Nil)
next
  case (Cons x xs)
  have "f s x = (put (Unit x) s, Inr (v x))" by (rule assms)
  then show ?case by (simp add: Cons.IH put_notify notify_notify)
qed

lemma scale_amps_eq:
  "scale_amps s avgs vheight =
     (if avgs = [] then (s, Inl ValueError)
      else if Max (set avgs) = 0 then (s, Inl (ZeroDivisionError FloatDivision))
      else (notify (Stage ''Scaling to Magnitude Value'' (int (length avgs)) #
                      map Unit (xrange (int (length avgs)))) s,
            Inr (scaled vheight avgs)))"
proof -
  let ?h = "vheight / real_of_int (Max (set avgs))"
  have "comprehension (\<lambda>s i. relativeScale s (avgs ! nat i) ?h i) t (xrange (int (length avgs))) =
      (notify (map Unit (xrange (int (length avgs)))) t, Inr (scaled vheight avgs))" for t
    unfolding scaled_def map_xrange_nth [where g = "\<lambda>a. real_of_int a * ?h" and xs = avgs, symmetric]
    by (rule comprehension_total) (simp add: relativeScale_def)
  then show ?thesis
    by (simp add: scale_amps_def py_max_eq Let_def put_notify notify_notify)
qed

lemma scaled_mult: "scaled (c * vheight) avgs = map ((*) c) (scaled vheight avgs)"
  by (simp add: scaled_def)

lemma createheightvals_mult:
  "createheightvals s nvtx (c * vheight) negative =
     (case createheightvals s nvtx vheight negative of
        (s', r) \<Rightarrow> (s', map_sum id (map ((*) c)) r))"
  by (simp add: createheightvals_def scale_amps_eq scaled_mult split: prod.splits sum.splits)

subsection \<open>The length of the result\<close>



subsection \<open>Scaling is linear in the height\<close>



subsection \<open>Arguments that are not checked\<close>

text \<open>
  C5, as amended.  A call with \<open>nvtx \<le> 0\<close> raises: \<open>ZeroDivisionError\<close> for 0
  (the float division of line 117), \<open>ValueError\<close> for a negative count (\<open>max\<close> of
  an empty list).  The height is not checked: for every height the call fails exactly
  when the call with height 1 fails, and otherwise returns that call's values
  multiplied by the height.
\<close>

theorem createheightvals_invalid_count:
  "(nvtx \<le> 0 \<longrightarrow>
      snd (createheightvals self nvtx vheight negative) =
        Inl (if nvtx = 0 then ZeroDivisionError FloatDivision else ValueError)) \<and>
   snd (createheightvals self nvtx vheight negative) =
     map_sum id (map ((*) vheight)) (snd (createheightvals self nvtx 1 negative))"
proof (intro conjI impI)
  assume "nvtx \<le> 0"
  then consider "nvtx = 0" | "nvtx < 0" by linarith
  then show "snd (createheightvals self nvtx vheight negative) =
        Inl (if nvtx = 0 then ZeroDivisionError FloatDivision else ValueError)"
  proof cases
    case 1
    then show ?thesis by (simp add: createheightvals_def read_amps_def Let_def)
  next
    case 2
    then show ?thesis
      by (simp add: createheightvals_def read_amps_def Let_def xrange_def positive_amps_def
            average_amps_def scale_amps_def split: prod.splits)
  qed
next
  show "snd (createheightvals self nvtx vheight negative) =
        map_sum id (map ((*) vheight)) (snd (createheightvals self nvtx 1 negative))"
    using createheightvals_mult [of self nvtx vheight 1 negative] by (simp add: split_beta)
qed

theorem createheightvals_invalid_count_witness:
  "(0::int) \<le> 0 \<and> snd (createheightvals song_two 0 10 False) = Inl (ZeroDivisionError FloatDivision) \<and>
   (- 1 :: int) \<le> 0 \<and> snd (createheightvals song_two (- 1) 10 False) = Inl ValueError"
  using createheightvals_invalid_count [of 0 song_two 10 False]
    createheightvals_invalid_count [of "- 1" song_two 10 False]
  by simp

text \<open>With a negative height and two frames the call returns.\<close>

theorem nonpositive_height_counterexample:
  "(- 10 :: real) \<le> 0 \<and> snd (createheightvals song_two 2 (- 10) False) = Inr [- 10, - 5]"
  using run_two_negative_height by simp

subsection \<open>The range of the result\<close>

lemma filter_stage_units: "filter is_stage (map Unit xs) = []"
  by (induction xs) (simp_all add: is_stage_def)

lemma averages_nonneg:
  assumes "a \<in> set (averages False xs)"
  shows "0 \<le> a"
proof -
  from assms obtain b where "a = sum_list (map abs b) div int (length (map abs b))"
    by (auto simp: averages_def)
  moreover have "0 \<le> sum_list (map abs b)" by (rule sum_list_nonneg) auto
  ultimately show ?thesis by (simp add: pos_imp_zdiv_nonneg_iff div_int_pos_iff)
qed

text \<open>
  C1, as amended.  Let a call with a positive height return, and let \<open>xs\<close> be the
  tuples it read.  If \<open>negative\<close> is false, or if it is true and the largest average is
  positive, then every value of the result is at most the height and the largest value
  is the height; if \<open>negative\<close> is false every value is moreover at least 0.  (With
  \<open>negative\<close> true the values are not bounded below by minus the height.)
\<close>

theorem createheightvals_bounds:
  assumes "snd (createheightvals self nvtx vheight negative) = Inr out"
    and "snd (read_amps self nvtx) = Inr xs"
    and "0 < vheight"
    and "\<not> negative \<or> 0 < Max (set (averages negative xs))"
  shows "(\<forall>v\<in>set out. v \<le> vheight) \<and> Max (set out) = vheight \<and>
         (\<not> negative \<longrightarrow> (\<forall>v\<in>set out. 0 \<le> v))"
proof -
  let ?avgs = "averages negative xs"
  let ?m = "Max (set ?avgs)"
  from assms(1,2) have ne: "?avgs \<noteq> []" and m0: "?m \<noteq> 0"
    and out: "out = scaled vheight ?avgs"
    unfolding createheightvals_Inr_iff by auto
  have m_in: "?m \<in> set ?avgs" using ne by (intro Max_in) simp_all
  have m_pos: "0 < ?m"
  proof (cases negative)
    case True
    with assms(4) show ?thesis by simp
  next
    case False
    with m_in have "0 \<le> ?m" using averages_nonneg [of ?m xs] by simp
    with m0 show ?thesis by simp
  qed
  then have r_pos: "0 < vheight / real_of_int ?m" using assms(3) by simp
  have le: "real_of_int a * (vheight / real_of_int ?m) \<le> vheight" if "a \<in> set ?avgs" for a
  proof -
    have "a \<le> ?m" using that by simp
    then have "real_of_int a * (vheight / real_of_int ?m) \<le> real_of_int ?m * (vheight / real_of_int ?m)"
      using r_pos by (intro mult_right_mono) simp_all
    also have "\<dots> = vheight" using m_pos by simp
    finally show ?thesis .
  qed
  have all_le: "\<forall>v\<in>set out. v \<le> vheight"
    using le by (auto simp: out scaled_def)
  have "vheight = (\<lambda>a. real_of_int a * (vheight / real_of_int ?m)) ?m"
    using m_pos by simp
  then have "vheight \<in> set out"
    unfolding out scaled_def set_map using m_in by (rule image_eqI)
  with all_le have max: "Max (set out) = vheight"
    by (intro Max_eqI) auto
  have "\<forall>v\<in>set out. 0 \<le> v" if "\<not> negative"
  proof
    fix v assume "v \<in> set out"
    then obtain a where a: "a \<in> set ?avgs" and v: "v = real_of_int a * (vheight / real_of_int ?m)"
      by (auto simp: out scaled_def)
    from a that have "0 \<le> a" using averages_nonneg [of a xs] by simp
    with r_pos show "0 \<le> v" unfolding v by (intro mult_nonneg_nonneg) simp_all
  qed
  with all_le max show ?thesis by blast
qed

theorem createheightvals_bounds_witness:
  "snd (createheightvals song_two 2 10 False) = Inr [10, 5] \<and>
   snd (read_amps song_two 2) = Inr [[100], [50]] \<and> (0::real) < 10 \<and>
   Max (set [10, 5 :: real]) = 10 \<and>
   snd (createheightvals song_dip 2 1 True) = Inr [- 2, 1] \<and>
   snd (read_amps song_dip 2) = Inr [[- 100], [50]] \<and>
   0 < Max (set (averages True [[- 100], [50]])) \<and>
   Max (set [- 2, 1 :: real]) = 1"
proof -
  have a: "snd (createheightvals song_two 2 10 False) = Inr [10, 5]" using run_two by simp
  have m: "0 < Max (set (averages True [[- 100], [50]]))" by (simp add: averages_def)
  show ?thesis
    using createheightvals_bounds [OF a read_two]
      createheightvals_bounds [OF run_dip read_dip] a read_two run_dip read_dip m
    by simp
qed

text \<open>The samples -100 and 50 with \<open>negative\<close> true and height 1 give -2 and 1.\<close>

theorem signed_bounds_counterexample:
  "snd (createheightvals song_dip 2 1 True) = Inr [- 2, 1] \<and> \<not> (- 1 \<le> (- 2 :: real))"
  using run_dip by simp

subsection \<open>The progress messages\<close>

text \<open>
  C9, as amended.  A call of \<open>createheightvals\<close> that returns, on an object with a
  queue, appends \<open>sampler_trace nvtx negative\<close> to it: the stage message for the
  reading, then the one for the conversion to positive values unless \<open>negative\<close> is
  set, then the ones for the averaging and for the scaling, each followed by the
  integers from 0 to \<open>nvtx - 1\<close>.  This is four stage messages, three when
  \<open>negative\<close> is set.  The method puts no closing string: \<open>music_displace\<close> puts
  \<open>Complete\<close> after the messages of \<open>move_vtx_positions\<close>.
\<close>

theorem progress_trace:
  assumes "queue self = Some q"
    and "snd (createheightvals self nvtx vheight negative) = Inr out"
    and "move out = (ms, Inr ())"
  shows "queue (fst (createheightvals self nvtx vheight negative)) =
           Some (q @ sampler_trace nvtx negative) \<and>
         length (filter is_stage (sampler_trace nvtx negative)) = (if negative then 3 else 4) \<and>
         queue (fst (music_displace self vheight nvtx negative move)) =
           Some (q @ sampler_trace nvtx negative @ ms @ [Sentinel ''Complete''])"
proof -
  obtain s1 where c: "createheightvals self nvtx vheight negative = (s1, Inr out)"
    using assms(2) by (cases "createheightvals self nvtx vheight negative") simp
  have q1: "queue s1 = Some (q @ sampler_trace nvtx negative)"
    using createheightvals_queue [OF assms(2)] assms(1) c by simp
  have "length (filter is_stage (sampler_trace nvtx negative)) = (if negative then 3 else 4)"
    by (simp add: sampler_trace_def filter_stage_units is_stage_def)
  moreover have "queue (fst (music_displace self vheight nvtx negative move)) =
           Some (q @ sampler_trace nvtx negative @ ms @ [Sentinel ''Complete''])"
    using c assms(3) q1 by (simp add: music_displace_def put_all_notify put_notify notify_notify)
  ultimately show ?thesis using q1 c by simp
qed

theorem progress_trace_witness:
  "queue song_two = Some [] \<and>
   snd (createheightvals song_two 2 10 False) = Inr [10, 5] \<and>
   queue (fst (createheightvals song_two 2 10 False)) = Some (sampler_trace 2 False) \<and>
   queue (fst (music_displace song_two 10 2 False (\<lambda>vals. ([Stage ''Moving Terrain in Y axis'' 2, Unit 0, Unit 1], Inr ())))) =
     Some (sampler_trace 2 False @ [Stage ''Moving Terrain in Y axis'' 2, Unit 0, Unit 1, Sentinel ''Complete''])"
proof -
  have a: "snd (createheightvals song_two 2 10 False) = Inr [10, 5]" using run_two by simp
  have q: "queue song_two = Some []" by (simp add: song_two_def)
  show ?thesis
    using progress_trace [OF q a, of "\<lambda>vals. ([Stage ''Moving Terrain in Y axis'' 2, Unit 0, Unit 1], Inr ())"
        "[Stage ''Moving Terrain in Y axis'' 2, Unit 0, Unit 1]"] a q
    by simp
qed

text \<open>A call with \<open>negative\<close> false puts four stage messages and ends on an integer.\<close>

theorem four_stages_counterexample:
  "queue (fst (createheightvals song_two 2 10 False)) =
     Some [Stage ''Reading WAV Data'' 2, Unit 0, Unit 1,
       Stage ''Converting all Values to Positive'' 2, Unit 0, Unit 1,
       Stage ''Averaging Amplitude values'' 2, Unit 0, Unit 1,
       Stage ''Scaling to Magnitude Value'' 2, Unit 0, Unit 1]"
  using run_two by simp

subsection \<open>Reading the tuples\<close>

lemma trunc_quotient_nat:
  assumes "1 \<le> nvtx"
  shows "trunc_quotient (int n) nvtx = int (n div nat nvtx)"
proof -
  have "int n div nvtx = int (n div nat nvtx)"
    using assms by (simp add: zdiv_int)
  moreover have "sgn nvtx = 1" "\<bar>nvtx\<bar> = nvtx" using assms by simp_all
  ultimately show ?thesis
    by (cases "n = 0") (simp_all add: trunc_quotient_def)
qed

lemma framesize_rewind [simp]: "framesize (rewind s) = framesize s"
  by (simp add: rewind_def)

lemma parsedata_zero:
  assumes "vtxsample s = 0"
  shows "parsedata s i = (notify [Unit i] s, Inr [])"
  using assms by (simp add: parsedata_def Let_def readframes_def str_mul_def put_notify)

lemma comprehension_parsedata_zero:
  assumes "vtxsample s = 0"
  shows "comprehension parsedata s js = (notify (map Unit js) s, Inr (replicate (length js) []))"
  using assms
proof (induction js arbitrary: s)
  case Nil
  show ?case by (simp add: notify_Nil)
next
  case (Cons j js)
  have "vtxsample (notify [Unit j] s) = 0" using Cons.prems by simp
  from Cons.IH [OF this] show ?case
    by (simp add: parsedata_zero [OF Cons.prems] notify_notify)
qed

lemma read_amps_short:
  assumes "int (nframes s) < nvtx"
  shows "snd (read_amps s nvtx) = Inr (replicate (nat nvtx) [])"
proof -
  have pos: "1 \<le> nvtx" using assms by linarith
  have "nframes s div nat nvtx = 0" using assms by simp
  then have "trunc_quotient (int (nframes s)) nvtx = 0"
    using trunc_quotient_nat [OF pos, of "nframes s"] by simp
  then show ?thesis using pos
    by (simp add: read_amps_def Let_def rewind_def put_notify comprehension_parsedata_zero)
qed

lemma read_amps_whole:
  assumes "opened s" "even (framesize s)" "1 \<le> nvtx" "nvtx \<le> int (nframes s)"
  defines "k \<equiv> nframes s div nat nvtx"
  shows "read_amps s nvtx =
     (notify (Stage ''Reading WAV Data'' nvtx # map Unit (xrange nvtx))
        (s\<lparr>vtxsample := int k, size_read := nat nvtx * (k * framesize s),
           soundpos := nat nvtx * k\<rparr>),
      Inr (map (bucket s k) [0..<nat nvtx]))"
proof -
  let ?n = "nat nvtx"
  let ?fs = "framesize s"
  let ?s1 = "(rewind s)\<lparr>vtxsample := int k\<rparr>"
  let ?s2 = "notify [Stage ''Reading WAV Data'' nvtx] ?s1"
  have fs: "framesize ?s2 = ?fs" by (simp add: rewind_def framesize_def)
  have tq: "trunc_quotient (int (nframes (rewind s))) nvtx = int k"
    using trunc_quotient_nat [OF assms(3), of "nframes s"] by (simp add: k_def rewind_def)
  have "?n * k \<le> nframes s" unfolding k_def by (simp add: mult.commute)
  then have "?n * k * ?fs \<le> nframes s * ?fs" by (rule mult_le_mono1)
  also have "\<dots> \<le> length (data_chunk s)" using assms(1) by (simp add: opened_def)
  finally have fit: "(0 + ?n) * (k * framesize ?s2) \<le> length (data_chunk ?s2)"
    by (simp add: fs rewind_def mult.assoc)
  have ev: "k * framesize ?s2 = 2 * (k * (?fs div 2))"
    using assms(2) by (simp add: fs)
  have c: "comprehension parsedata ?s2 (map int [0..<0 + ?n]) =
     (notify (map Unit (map int [0..<0 + ?n]))
        (?s2\<lparr>size_read := (0 + ?n) * (k * framesize ?s2), soundpos := soundpos ?s2 + ?n * k\<rparr>),
      Inr (map (\<lambda>i. shorts (take (k * framesize ?s2) (drop (i * (k * framesize ?s2)) (data_chunk ?s2))))
             [0..<0 + ?n]))"
    using assms(1) fit ev
    by (intro comprehension_parsedata [where u = "?fs div 2"])
       (simp_all add: opened_def rewind_def fs)
  have b: "(\<lambda>i. shorts (take (k * framesize ?s2) (drop (i * (k * framesize ?s2)) (data_chunk ?s2)))) =
      bucket s k"
    by (simp add: fun_eq_iff bucket_def fs rewind_def)
  have "read_amps s nvtx = comprehension parsedata ?s2 (xrange nvtx)"
    using assms(3) tq by (simp add: read_amps_def Let_def put_notify)
  also have "\<dots> = (notify (map Unit (xrange nvtx))
        (?s2\<lparr>size_read := ?n * (k * ?fs), soundpos := soundpos ?s2 + ?n * k\<rparr>),
      Inr (map (bucket s k) [0..<?n]))"
    using c unfolding b by (simp add: xrange_def fs)
  also have "notify (map Unit (xrange nvtx))
        (?s2\<lparr>size_read := ?n * (k * ?fs), soundpos := soundpos ?s2 + ?n * k\<rparr>) =
      notify (Stage ''Reading WAV Data'' nvtx # map Unit (xrange nvtx))
        (s\<lparr>vtxsample := int k, size_read := ?n * (k * ?fs), soundpos := ?n * k\<rparr>)"
    by (simp add: rewind_def notify_update [symmetric] notify_notify)
  finally show ?thesis .
qed


subsection \<open>What a call returns or raises\<close>

lemma comprehension_snd_const:
  assumes "\<And>s x. snd (f s x) = (if ok x then Inr (v x) else Inl e)"
  shows "snd (comprehension f s xs) = (if \<forall>x\<in>set xs. ok x then Inr (map v xs) else Inl e)"
proof (induction xs arbitrary: s)
  case Nil
  show ?case by simp
next
  case (Cons x xs)
  obtain s1 r where f: "f s x = (s1, r)" by (cases "f s x")
  have r: "r = (if ok x then Inr (v x) else Inl e)" using assms [of s x] f by simp
  obtain s2 r2 where c: "comprehension f s1 xs = (s2, r2)" by (cases "comprehension f s1 xs")
  have r2: "r2 = (if \<forall>x\<in>set xs. ok x then Inr (map v xs) else Inl e)"
    using Cons.IH [of s1] c by simp
  show ?case using f r c r2 by simp
qed

lemma average_amps_snd:
  "snd (average_amps s xs) =
     (if \<forall>b\<in>set xs. b \<noteq> [] then Inr (map (\<lambda>b. sum_list b div int (length b)) xs)
      else Inl (ZeroDivisionError IntegerDivision))"
proof -
  let ?f = "\<lambda>s i. averageAmps s (xs ! nat i) i"
  have "snd (comprehension ?f t js) =
      (if \<forall>i\<in>set js. xs ! nat i \<noteq> []
       then Inr (map (\<lambda>i. sum_list (xs ! nat i) div int (length (xs ! nat i))) js)
       else Inl (ZeroDivisionError IntegerDivision))" for t js
    by (rule comprehension_snd_const) (simp add: averageAmps_def Let_def)
  then show ?thesis
    by (auto simp: average_amps_def Let_def
          map_xrange_nth [of "\<lambda>b. sum_list b div int (length b)" xs]
          ball_xrange_nth [where P = "\<lambda>b. b \<noteq> []" and xs = xs])
qed

lemma createheightvals_snd:
  "snd (createheightvals s nvtx vheight negative) =
     (case snd (read_amps s nvtx) of
        Inl e \<Rightarrow> Inl e
      | Inr xs \<Rightarrow>
          if [] \<in> set xs then Inl (ZeroDivisionError IntegerDivision)
          else if xs = [] then Inl ValueError
          else if Max (set (averages negative xs)) = 0 then Inl (ZeroDivisionError FloatDivision)
          else Inr (scaled vheight (averages negative xs)))"
proof -
  obtain s1 r1 where r: "read_amps s nvtx = (s1, r1)" by (cases "read_amps s nvtx")
  show ?thesis
  proof (cases r1)
    case (Inl e)
    with r show ?thesis by (simp add: createheightvals_def)
  next
    case (Inr xs)
    let ?xs' = "if negative then xs else map (map abs) xs"
    obtain s2 where p: "positive_amps s1 xs negative = (s2, Inr ?xs')"
      using positive_amps_snd [of s1 xs negative] by (cases "positive_amps s1 xs negative") simp
    obtain s3 r3 where a: "average_amps s2 ?xs' = (s3, r3)" by (cases "average_amps s2 ?xs'")
    have ne: "(\<forall>b\<in>set ?xs'. b \<noteq> []) \<longleftrightarrow> (\<forall>b\<in>set xs. b \<noteq> [])" by auto
    have r3: "r3 = (if \<forall>b\<in>set xs. b \<noteq> [] then Inr (averages negative xs)
        else Inl (ZeroDivisionError IntegerDivision))"
      using average_amps_snd [of s2 ?xs'] a unfolding ne by (auto simp: averages_def)
    have e: "averages negative xs = [] \<longleftrightarrow> xs = []" by (simp add: averages_def)
    have c: "snd (createheightvals s nvtx vheight negative) =
        (case r3 of Inl e \<Rightarrow> Inl e | Inr ys \<Rightarrow> snd (scale_amps s3 ys vheight))"
      using r Inr p a by (simp add: createheightvals_def split: sum.splits)
    have nn: "(\<forall>b\<in>set xs. b \<noteq> []) \<longleftrightarrow> [] \<notin> set xs" by auto
    show ?thesis
    proof (cases "[] \<in> set xs")
      case True
      then show ?thesis
        unfolding c r3 nn using r Inr by simp
    next
      case False
      then show ?thesis
        unfolding c r3 nn using r Inr by (simp add: scale_amps_eq e)
    qed
  qed
qed

subsection \<open>More vertices than frames\<close>

text \<open>
  C3, as amended.  When \<open>nvtx\<close> exceeds the number of frames, \<open>vtxsample\<close> is 0:
  the reading part runs to its end, each of its \<open>nvtx\<close> reads being of no frame and
  giving an empty tuple, and the call then raises \<open>ZeroDivisionError\<close> from the
  integer division that averages the first empty tuple.
\<close>

theorem createheightvals_too_few_frames:
  assumes "int (nframes self) < nvtx"
  shows "snd (read_amps self nvtx) = Inr (replicate (nat nvtx) []) \<and>
         snd (createheightvals self nvtx vheight negative) = Inl (ZeroDivisionError IntegerDivision)"
proof -
  have "0 < nat nvtx" using assms by simp
  then have "[] \<in> set (replicate (nat nvtx) ([] :: int list))" by simp
  then show ?thesis
    using read_amps_short [OF assms] by (simp add: createheightvals_snd)
qed


theorem createheightvals_too_few_frames_witness:
  "int (nframes song_two) < 3 \<and>
   snd (read_amps song_two 3) = Inr [[], [], []] \<and>
   snd (createheightvals song_two 3 10 False) = Inl (ZeroDivisionError IntegerDivision)"
proof -
  have a: "int (nframes song_two) < 3" by (simp add: song_two_def)
  show ?thesis
    using createheightvals_too_few_frames [OF a, of 10 False] a
    by (simp add: numeral_3_eq_3)
qed

text \<open>
  With two frames and three vertices all three reads are made, and the call stops in
  the averaging of vertex 0.
\<close>

theorem zero_length_reads_counterexample:
  "snd (read_amps song_two 3) = Inr [[], [], []] \<and>
   queue (fst (createheightvals song_two 3 10 False)) =
     Some [Stage ''Reading WAV Data'' 3, Unit 0, Unit 1, Unit 2,
       Stage ''Converting all Values to Positive'' 3, Unit 0, Unit 1, Unit 2,
       Stage ''Averaging Amplitude values'' 3, Unit 0]"
  by (simp add: run_defs song_two_def)

subsection \<open>Frames and buckets\<close>

lemma shorts_frames:
  assumes "even fs" "(p + k) * fs \<le> length d"
  shows "shorts (take (k * fs) (drop (p * fs) d)) =
     concat (map (\<lambda>j. shorts (take fs (drop (j * fs) d))) [p..<p + k])"
  using assms(2)
proof (induction k)
  case 0
  show ?case by simp
next
  case (Suc k)
  let ?ys = "drop (p * fs) d"
  have le: "(p + k) * fs \<le> length d"
    using Suc.prems by (simp add: algebra_simps)
  have len: "length (take (k * fs) ?ys) = k * fs"
    using le by (simp add: algebra_simps)
  have e: "Suc k * fs = k * fs + fs" by simp
  have "take (Suc k * fs) ?ys = take (k * fs) ?ys @ take fs (drop (k * fs) ?ys)"
    by (simp only: e take_add)
  also have "drop (k * fs) ?ys = drop ((p + k) * fs) d"
    by (simp add: algebra_simps)
  finally have "shorts (take (Suc k * fs) ?ys) =
      shorts (take (k * fs) ?ys) @ shorts (take fs (drop ((p + k) * fs) d))"
    using assms(1) by (simp add: shorts_append len del: length_take mult_Suc)
  then show ?case using Suc.IH [OF le] by (simp del: mult_Suc)
qed


lemma bucket_length:
  assumes "(i + 1) * (k * framesize s) \<le> length (data_chunk s)"
  shows "length (bucket s k i) = k * framesize s div 2"
proof -
  have "length (take (k * framesize s) (drop (i * (k * framesize s)) (data_chunk s))) = k * framesize s"
    using assms by (simp add: algebra_simps)
  then show ?thesis by (simp only: bucket_def length_shorts)
qed

lemma buckets_fit:
  assumes "opened s" "1 \<le> nvtx" "i < nat nvtx"
  shows "(i + 1) * ((nframes s div nat nvtx) * framesize s) \<le> length (data_chunk s)"
proof -
  let ?k = "nframes s div nat nvtx"
  have "(i + 1) * ?k \<le> nat nvtx * ?k" using assms(3) by (intro mult_le_mono1) simp
  also have "\<dots> \<le> nframes s" by (simp add: mult.commute)
  finally have "(i + 1) * ?k * framesize s \<le> nframes s * framesize s" by (rule mult_le_mono1)
  also have "\<dots> \<le> length (data_chunk s)" using assms(1) by (simp add: opened_def)
  finally show ?thesis by (simp add: algebra_simps)
qed

subsection \<open>A silent stream\<close>

lemma opened_two: "opened song_two"
  by (simp add: opened_def song_two_def framesize_def str_mul_def)







subsection \<open>The frames of each bucket\<close>










subsection \<open>The integers of each frame\<close>

lemma frame_length:
  assumes "opened s" "j < nframes s"
  shows "length (frame s j) = framesize s"
proof -
  have "(j + 1) * framesize s \<le> nframes s * framesize s"
    using assms(2) by (intro mult_le_mono1) simp
  also have "\<dots> \<le> length (data_chunk s)" using assms(1) by (simp add: opened_def)
  finally show ?thesis by (simp add: frame_def algebra_simps)
qed

text \<open>
  C7, as amended.  On a 16-bit stream, with the cursor at frame \<open>p\<close> and \<open>k\<close> frames
  left to read there, \<open>parsedata\<close> returns the integers of the frames \<open>p\<close> up to
  \<open>p + k - 1\<close> in order; every frame unpacks to exactly \<open>nchannels\<close> integers, each
  from \<open>-2 ^ 15\<close> up to \<open>2 ^ 15 - 1\<close>.
\<close>

theorem parsedata_frames:
  assumes "opened s" "sampwidth s = 2"
    and "vtxsample s = int k" "size_read s = p * framesize s" "p + k \<le> nframes s"
  shows "snd (parsedata s i) = Inr (concat (map (\<lambda>j. shorts (frame s j)) [p..<p + k])) \<and>
         (\<forall>j<nframes s. length (shorts (frame s j)) = nchannels s \<and>
            (\<forall>v\<in>set (shorts (frame s j)). - (2 ^ 15) \<le> v \<and> v \<le> 2 ^ 15 - 1))"
proof -
  let ?fs = "framesize s"
  have fs: "?fs = 2 * nchannels s" using assms(2) by (simp add: framesize_def)
  then have ev: "even ?fs" by simp
  have u: "unpackstructval s = str_mul ''h'' (int (?fs div 2))" and pos: "0 < ?fs"
    using assms(1) by (simp_all add: opened_def)
  have "(p + k) * ?fs \<le> nframes s * ?fs" using assms(5) by (rule mult_le_mono1)
  also have "\<dots> \<le> length (data_chunk s)" using assms(1) by (simp add: opened_def)
  finally have fit: "(p + k) * ?fs \<le> length (data_chunk s)" .
  then have fit': "size_read s + k * ?fs \<le> length (data_chunk s)"
    by (simp add: assms(4) algebra_simps)
  have "k * ?fs = 2 * (k * (?fs div 2))" using ev by simp
  from parsedata_whole [OF assms(3) u fit' pos this, of i]
  have "snd (parsedata s i) = Inr (shorts (take (k * ?fs) (drop (p * ?fs) (data_chunk s))))"
    by (simp add: assms(4))
  also have "shorts (take (k * ?fs) (drop (p * ?fs) (data_chunk s))) =
      concat (map (\<lambda>j. shorts (frame s j)) [p..<p + k])"
    using shorts_frames [OF ev fit] by (simp add: frame_def)
  finally have a: "snd (parsedata s i) = Inr (concat (map (\<lambda>j. shorts (frame s j)) [p..<p + k]))" .
  have b: "length (shorts (frame s j)) = nchannels s" if "j < nframes s" for j
    using frame_length [OF assms(1) that] by (simp add: length_shorts fs)
  have c: "- (2 ^ 15) \<le> v \<and> v \<le> 2 ^ 15 - 1" if "v \<in> set (shorts (frame s j))" for v j
    using shorts_range [OF that] by simp
  from a b c show ?thesis by blast
qed

lemma init_eight: "init wave_eight None = Inr song_eight"
  by (simp add: init_def wave_eight_def song_eight_def str_mul_def Wave_read.defs TerrainWaveFile.defs)

theorem parsedata_frames_witness:
  "opened song_stereo \<and> sampwidth (song_stereo\<lparr>vtxsample := 2\<rparr>) = 2 \<and>
   nchannels song_stereo = 2 \<and>
   snd (parsedata (song_stereo\<lparr>vtxsample := 2\<rparr>) 0) = Inr [100, - 100, 50, - 50] \<and>
   shorts (frame song_stereo 0) = [100, - 100] \<and> shorts (frame song_stereo 1) = [50, - 50]"
proof -
  let ?s = "song_stereo\<lparr>vtxsample := 2\<rparr>"
  have h: "str_mul ''h'' 2 = ''hh''" by (simp add: str_mul_def numeral_2_eq_2)
  have o: "opened ?s" "opened song_stereo"
    by (simp_all add: opened_def song_stereo_def framesize_def h)
  have w: "sampwidth ?s = 2" by (simp add: song_stereo_def)
  have v: "vtxsample ?s = int 2" by simp
  have p: "size_read ?s = 0 * framesize ?s" by (simp add: song_stereo_def)
  have n: "0 + 2 \<le> nframes ?s" by (simp add: song_stereo_def)
  have f: "shorts (frame song_stereo 0) = [100, - 100]" "shorts (frame song_stereo 1) = [50, - 50]"
    "frame ?s = frame song_stereo"
    by (simp_all add: frame_def song_stereo_def framesize_def short_def fun_eq_iff)
  show ?thesis
    using parsedata_frames [OF o(1) w v p n, of 0] o(2) w f
    by (simp add: upt_rec song_stereo_def)
qed

text \<open>
  A stereo 8-bit frame with the bytes 0 and 1 is unpacked as the single integer 256.
\<close>

theorem eight_bit_counterexample:
  "init wave_eight None = Inr song_eight \<and> nchannels song_eight = 2 \<and>
   sampwidth song_eight = 1 \<and> snd (read_amps song_eight 1) = Inr [[256]]"
  using init_eight by (simp add: run_defs song_eight_def)

text \<open>
  A mono 8-bit stream is not unpacked at all: the format is empty, one frame is read
  and \<open>struct.unpack\<close> raises.  This is why the statements on the reading ask for an
  even frame size.
\<close>

lemma mono_eight_bit_raises: "snd (createheightvals song_mono_eight 2 10 False) = Inl StructError"
  by (simp add: run_defs song_mono_eight_def)

subsection \<open>Calls with valid arguments\<close>

text \<open>What \<open>__init__\<close> returns on a header whose data chunk is complete is \<open>opened\<close>.\<close>

lemma init_opened:
  assumes "init w q = Inr s" "0 < framesize w" "nframes w * framesize w \<le> length (data_chunk w)"
  shows "opened s"
proof -
  have "(int (nchannels w) * int (sampwidth w)) div 2 = int (framesize w div 2)"
    by (simp add: framesize_def zdiv_int)
  with assms show ?thesis
    by (auto simp: init_def opened_def framesize_def Let_def Wave_read.defs TerrainWaveFile.defs
          split: if_splits)
qed

text \<open>
  On a stream whose frames unpack, a call with \<open>1 \<le> nvtx \<le> nframes\<close> raises only
  when the largest average is 0, and otherwise returns the scaled averages.
\<close>

lemma createheightvals_valid:
  fixes negative :: bool
  assumes "opened s" "even (framesize s)" "1 \<le> nvtx" "nvtx \<le> int (nframes s)"
  defines "avgs \<equiv> averages negative (map (bucket s (nframes s div nat nvtx)) [0..<nat nvtx])"
  shows "snd (createheightvals s nvtx vheight negative) =
     (if Max (set avgs) = 0 then Inl (ZeroDivisionError FloatDivision)
      else Inr (scaled vheight avgs))"
proof -
  define k where "k = nframes s div nat nvtx"
  let ?xs = "map (bucket s k) [0..<nat nvtx]"
  have r: "snd (read_amps s nvtx) = Inr ?xs"
    using read_amps_whole [OF assms(1-4)] by (simp add: k_def)
  have k: "0 < k" using assms(3,4) by (simp add: k_def div_greater_zero_iff)
  have fs: "2 \<le> framesize s"
    using assms(1,2) by (auto simp: opened_def elim!: evenE)
  have "1 * 2 \<le> k * framesize s" using k fs by (intro mult_le_mono) simp_all
  then have "0 < k * framesize s div 2" by simp
  then have len: "length (bucket s k i) > 0" if "i < nat nvtx" for i
    using bucket_length [OF buckets_fit [OF assms(1,3) that]] by (simp add: k_def)
  have ne: "[] \<notin> set ?xs"
  proof
    assume "[] \<in> set ?xs"
    then obtain i where "i < nat nvtx" "bucket s k i = []" by auto
    with len [of i] show False by simp
  qed
  have xs: "?xs \<noteq> []" using assms(3) by simp
  show ?thesis
    using r ne xs unfolding avgs_def k_def [symmetric] by (simp add: createheightvals_snd)
qed

text \<open>
  The averages are floor divisions: a stream that is not silent can have all of them 0.
\<close>

lemma faint_stream_raises:
  "snd (read_amps song_faint 1) = Inr [[1, 0]] \<and>
   snd (createheightvals song_faint 1 10 False) = Inl (ZeroDivisionError FloatDivision)"
  by (simp add: run_defs song_faint_def numeral_2_eq_2)

end
